theory Spec2Isabelle
  imports Main
begin

section \<open>Python exceptions as values\<close>

text \<open>
  The exceptions that the plugin raises or handles. Every constructor stands for a
  subclass of Python's \<open>Exception\<close>, so a handler \<open>except Exception\<close> catches each of
  them. \<open>MaxRetryError\<close> is \<open>urllib3.exceptions.MaxRetryError\<close>, \<open>ApiException\<close> is the
  bindings' \<open>ApiException\<close> (with its subclasses); \<open>OtherException\<close> is any exception of
  another class, named by its class name.
\<close>

datatype exn =
    ValueError string
  | IndexError string
  | TypeError string
  | AttributeError string
  | MaxRetryError
  | ApiException
  | OtherException string

section \<open>Threaded local fixture servers\<close>

subsection \<open>Decimal rendering of an integer, as an f-string prints it\<close>

definition digit_char :: "nat \<Rightarrow> char" where
  "digit_char d = ''0123456789'' ! d"

fun str_nat :: "nat \<Rightarrow> string" where
  "str_nat n = (if n < 10 then [digit_char n] else str_nat (n div 10) @ [digit_char (n mod 10)])"

declare str_nat.simps [simp del]

definition str_int :: "int \<Rightarrow> string" where
  "str_int i = (if i < 0 then CHR ''-'' # str_nat (nat (- i)) else str_nat (nat i))"

subsection \<open>ThreadedAiohttpServerData\<close>

text \<open>
  \<open>shutdown_event\<close> and \<open>thread\<close> are references to a \<open>threading.Event\<close> and to a
  \<open>ThreadedAiohttpServer\<close>: indices into the stores of the fixture state below.
  \<open>ssl_ctx\<close> is \<open>None\<close> or an SSL context.
\<close>

record ('s, 'r) ThreadedAiohttpServerData =
  host :: string
  port :: int
  shutdown_event :: nat
  thread :: nat
  ssl_ctx :: "'s option"
  requests_record :: 'r

definition make_url_error :: string where
  "make_url_error = ''The `path` argument should start with a '' @ [CHR 0x27, CHR ''/'', CHR 0x27]"

text \<open>
  \<open>path[0]\<close> on the empty string raises \<open>IndexError\<close> before the comparison with
  \<open>"/"\<close> is made.
\<close>

definition make_url :: "('s, 'r) ThreadedAiohttpServerData \<Rightarrow> string \<Rightarrow> exn + string" where
  "make_url self path =
     (case path of
        [] \<Rightarrow> Inl (IndexError ''string index out of range'')
      | c # _ \<Rightarrow>
          if c \<noteq> CHR ''/'' then Inl (ValueError make_url_error)
          else
            let protocol_handler = (if ssl_ctx self = None then ''http://'' else ''https://'')
            in Inr (protocol_handler @ host self @ '':'' @ str_int (port self) @ path))"

subsection \<open>ThreadedAiohttpServer and the fixture's stores\<close>

text \<open>
  A \<open>ThreadedAiohttpServer\<close> is a thread holding a reference to its shutdown event.
  \<open>Running\<close>: the thread is inside \<open>run\<close>; \<open>Finished\<close>: \<open>run\<close> has returned, or
  has died from an exception of \<open>runner.setup()\<close> or \<open>site.start()\<close>.
\<close>

datatype thread_status = Running | Finished

record ('a, 's) ThreadedAiohttpServer =
  t_shutdown_event :: nat
  t_app :: 'a
  t_host :: string
  t_port :: int
  t_ssl_ctx :: "'s option"
  daemon :: bool
  status :: thread_status

text \<open>
  The state of one \<open>gen_threaded_aiohttp_server\<close> fixture: the store of events (the flag
  of each \<open>threading.Event\<close>, by reference), the store of threads, the list
  \<open>fixture_servers_data\<close> of the closure, and the operating system's state \<open>os\<close>.
\<close>

record ('a, 's, 'r, 'o) fixture_state =
  events :: "bool list"
  threads :: "('a, 's) ThreadedAiohttpServer list"
  fixture_servers_data :: "('s, 'r) ThreadedAiohttpServerData list"
  os :: 'o

text \<open>
  What the fixture takes from outside: \<open>pulp_cfg.aiohttp_fixtures_origin\<close>, the
  \<open>unused_port\<close> fixture, and whether \<open>runner.setup()\<close> and \<open>site.start()\<close> of a
  started thread complete (\<open>site_start\<close>) or raise inside the thread.
\<close>

record 'o fixture_env =
  aiohttp_fixtures_origin :: string
  unused_port :: "'o \<Rightarrow> int \<times> 'o"
  site_start :: "string \<Rightarrow> int \<Rightarrow> 'o \<Rightarrow> bool \<times> 'o"

definition fixture_init :: "'o \<Rightarrow> ('a, 's, 'r, 'o) fixture_state" where
  "fixture_init o0 = \<lparr>events = [], threads = [], fixture_servers_data = [], os = o0\<rparr>"

text \<open>
  \<open>_gen_threaded_aiohttp_server(app, ssl_ctx, call_record)\<close>: a fresh event (clear), a
  fresh daemon thread that is started, and the handle, appended to
  \<open>fixture_servers_data\<close> and returned.
\<close>

definition gen_threaded_aiohttp_server ::
  "'o fixture_env \<Rightarrow> ('a, 's, 'r, 'o) fixture_state \<Rightarrow> 'a \<Rightarrow> 's option \<Rightarrow> 'r \<Rightarrow>
     ('s, 'r) ThreadedAiohttpServerData \<times> ('a, 's, 'r, 'o) fixture_state" where
  "gen_threaded_aiohttp_server env st app ssl call_record =
     (let h = aiohttp_fixtures_origin env;
          (p, o1) = unused_port env (os st);
          ev = length (events st);
          th = length (threads st);
          (ok, o2) = site_start env h p o1;
          fixture_server = \<lparr>t_shutdown_event = ev, t_app = app, t_host = h, t_port = p,
                            t_ssl_ctx = ssl, daemon = True,
                            status = (if ok then Running else Finished)\<rparr>;
          fixture_server_data = \<lparr>host = h, port = p, shutdown_event = ev, thread = th,
                                 ssl_ctx = ssl, requests_record = call_record\<rparr>
      in (fixture_server_data,
          st\<lparr>events := events st @ [False],
             threads := threads st @ [fixture_server],
             fixture_servers_data := fixture_servers_data st @ [fixture_server_data],
             os := o2\<rparr>))"

text \<open>The calls a test makes to the fixture, in order: each is \<open>(app, ssl_ctx, call_record)\<close>.\<close>

fun gen_servers ::
  "'o fixture_env \<Rightarrow> ('a, 's, 'r, 'o) fixture_state \<Rightarrow> ('a \<times> 's option \<times> 'r) list \<Rightarrow>
     ('a, 's, 'r, 'o) fixture_state" where
  "gen_servers env st [] = st"
| "gen_servers env st ((app, ssl, call_record) # calls) =
     gen_servers env (snd (gen_threaded_aiohttp_server env st app ssl call_record)) calls"

text \<open>
  The loop of \<open>ThreadedAiohttpServer.run\<close>: sleep one second, leave when the shutdown
  event is set. While the main thread is blocked in \<open>join\<close> nobody changes the event, so
  the loop reads the same flag every round; it returns the seconds slept, and does not
  return when the flag is clear.
\<close>

partial_function (option) run_loop :: "bool \<Rightarrow> nat \<Rightarrow> nat option" where
  "run_loop is_set slept = (if is_set then Some (Suc slept) else run_loop is_set (Suc slept))"

text \<open>What the main thread does at teardown, in order.\<close>

datatype teardown_event = EventSet nat | ThreadJoin nat

text \<open>
  \<open>thread.join()\<close>: returns at once for a finished thread, otherwise when the thread's
  loop leaves. A reference outside the store does not occur in a state built by the
  fixture; the model has no result for it.
\<close>

definition thread_join ::
  "bool list \<Rightarrow> ('a, 's) ThreadedAiohttpServer list \<Rightarrow> nat \<Rightarrow> ('a, 's) ThreadedAiohttpServer list option" where
  "thread_join evs ths th =
     (if th < length ths then
        (let t = ths ! th in
         case status t of
           Finished \<Rightarrow> Some ths
         | Running \<Rightarrow>
             (if t_shutdown_event t < length evs then
                (case run_loop (evs ! t_shutdown_event t) 0 of
                   None \<Rightarrow> None
                 | Some _ \<Rightarrow> Some (ths[th := t\<lparr>status := Finished\<rparr>]))
              else None))
      else None)"

text \<open>First loop of the teardown: \<open>shutdown_event.set()\<close> for every handle.\<close>

fun set_events ::
  "('s, 'r) ThreadedAiohttpServerData list \<Rightarrow> bool list \<Rightarrow> bool list \<times> teardown_event list" where
  "set_events [] evs = (evs, [])"
| "set_events (d # ds) evs =
     (let (evs', tr) = set_events ds (evs[shutdown_event d := True])
      in (evs', EventSet (shutdown_event d) # tr))"

text \<open>Second loop of the teardown: \<open>thread.join()\<close> for every handle.\<close>

fun join_threads ::
  "('s, 'r) ThreadedAiohttpServerData list \<Rightarrow> bool list \<Rightarrow> ('a, 's) ThreadedAiohttpServer list \<Rightarrow>
     (('a, 's) ThreadedAiohttpServer list \<times> teardown_event list) option" where
  "join_threads [] evs ths = Some (ths, [])"
| "join_threads (d # ds) evs ths =
     (case thread_join evs ths (thread d) of
        None \<Rightarrow> None
      | Some ths' \<Rightarrow>
          (case join_threads ds evs ths' of
             None \<Rightarrow> None
           | Some (ths'', tr) \<Rightarrow> Some (ths'', ThreadJoin (thread d) # tr)))"

text \<open>
  The teardown of \<open>gen_threaded_aiohttp_server\<close> (the code after \<open>yield\<close>): the final
  state and what the main thread did, or \<open>None\<close> when a \<open>join\<close> never returns.
\<close>

definition gen_threaded_aiohttp_server_teardown ::
  "('a, 's, 'r, 'o) fixture_state \<Rightarrow> (('a, 's, 'r, 'o) fixture_state \<times> teardown_event list) option" where
  "gen_threaded_aiohttp_server_teardown st =
     (let (evs, tr1) = set_events (fixture_servers_data st) (events st)
      in case join_threads (fixture_servers_data st) evs (threads st) of
           None \<Rightarrow> None
         | Some (ths, tr2) \<Rightarrow> Some (st\<lparr>events := evs, threads := ths\<rparr>, tr1 @ tr2))"

text \<open>
  The shape of every state the fixture builds: the \<open>i\<close>-th handle refers to the \<open>i\<close>-th
  event and the \<open>i\<close>-th thread, and the \<open>i\<close>-th thread holds the \<open>i\<close>-th event.
\<close>

definition fixture_wf :: "('a, 's, 'r, 'o) fixture_state \<Rightarrow> bool" where
  "fixture_wf st =
     (length (events st) = length (threads st)
      \<and> map shutdown_event (fixture_servers_data st) = [0..<length (threads st)]
      \<and> map thread (fixture_servers_data st) = [0..<length (threads st)]
      \<and> map t_shutdown_event (threads st) = [0..<length (threads st)])"

section \<open>Service availability\<close>

definition PULP_SERVICES :: "string list" where
  "PULP_SERVICES = [''pulpcore-content'', ''pulpcore-api'', ''pulpcore-worker@1'', ''pulpcore-worker@2'']"

record database_connection_t =
  connected :: bool

record status_response =
  online_workers :: "string list"
  online_content_apps :: "string list"
  database_connection :: database_connection_t

text \<open>
  The collaborators of the two helpers, over a state \<open>'w\<close> of the remote system:
  \<open>svc_mgr.start\<close>, \<open>svc_mgr.stop\<close>, \<open>time.sleep\<close>, \<open>status_api_client.status_read\<close> and
  \<open>status_api_client.status_read_with_http_info\<close> (status and HTTP code; the third
  component of its result is not used). A remote call returns or raises.
\<close>

record 'w svc_env =
  svc_start :: "string list \<Rightarrow> 'w \<Rightarrow> (exn + unit) \<times> 'w"
  svc_stop :: "string list \<Rightarrow> 'w \<Rightarrow> (exn + unit) \<times> 'w"
  sleep :: "nat \<Rightarrow> 'w \<Rightarrow> 'w"
  status_read :: "'w \<Rightarrow> (exn + status_response) \<times> 'w"
  status_read_with_http_info :: "'w \<Rightarrow> (exn + status_response \<times> int) \<times> 'w"

text \<open>What a helper did, in order, with the outcome of each status read.\<close>

datatype svc_event =
    SvcStart "string list"
  | SvcStop "string list"
  | Sleep nat
  | StatusRead "exn + status_response"
  | StatusReadInfo "exn + status_response \<times> int"

text \<open>\<open>pulp_services or PULP_SERVICES\<close>: \<open>None\<close> and the empty sequence are falsy.\<close>

definition services_or_default :: "string list option \<Rightarrow> string list" where
  "services_or_default pulp_services =
     (case pulp_services of
        None \<Rightarrow> PULP_SERVICES
      | Some xs \<Rightarrow> if xs = [] then PULP_SERVICES else xs)"

text \<open>The handler \<open>except (urllib3.exceptions.MaxRetryError, ApiException)\<close>.\<close>

definition caught_by_poller :: "exn \<Rightarrow> bool" where
  "caught_by_poller e = (e = MaxRetryError \<or> e = ApiException)"

text \<open>The loop \<open>for i in range(10)\<close> of \<open>_stop_and_check_services\<close>, over the values of \<open>i\<close>.\<close>

fun stop_poll :: "'w svc_env \<Rightarrow> nat list \<Rightarrow> 'w \<Rightarrow> (exn + bool) \<times> 'w \<times> svc_event list" where
  "stop_poll env [] w = (Inr False, w, [])"
| "stop_poll env (i # rest) w =
     (let w1 = sleep env 3 w in
      case status_read env w1 of
        (Inl e, w2) \<Rightarrow>
          if caught_by_poller e then (Inr True, w2, [Sleep 3, StatusRead (Inl e)])
          else (Inl e, w2, [Sleep 3, StatusRead (Inl e)])
      | (Inr s, w2) \<Rightarrow>
          (let (r, w3, tr) = stop_poll env rest w2
           in (r, w3, Sleep 3 # StatusRead (Inr s) # tr)))"

definition stop_and_check_services ::
  "'w svc_env \<Rightarrow> string list option \<Rightarrow> 'w \<Rightarrow> (exn + bool) \<times> 'w \<times> svc_event list" where
  "stop_and_check_services env pulp_services w =
     (let svcs = services_or_default pulp_services in
      case svc_stop env svcs w of
        (Inl e, w1) \<Rightarrow> (Inl e, w1, [SvcStop svcs])
      | (Inr _, w1) \<Rightarrow>
          (let (r, w2, tr) = stop_poll env [0..<10] w1 in (r, w2, SvcStop svcs # tr)))"




text \<open>Observations of a trace: the status reads made, and the seconds slept.\<close>

fun is_read :: "svc_event \<Rightarrow> bool" where
  "is_read (StatusRead _) = True"
| "is_read (StatusReadInfo _) = True"
| "is_read _ = False"

definition attempts :: "svc_event list \<Rightarrow> nat" where
  "attempts tr = length (filter is_read tr)"


fun read_ok :: "svc_event \<Rightarrow> bool" where
  "read_ok (StatusRead (Inr _)) = True"
| "read_ok (StatusReadInfo (Inr _)) = True"
| "read_ok _ = False"

fun failed_read :: "svc_event \<Rightarrow> bool" where
  "failed_read (StatusRead (Inl e)) = caught_by_poller e"
| "failed_read _ = False"

text \<open>\<open>n\<close> attempts at 3-second spacing: each read comes right after a sleep of 3 seconds.\<close>

fun spaced :: "svc_event list \<Rightarrow> bool" where
  "spaced [] = True"
| "spaced (Sleep n # e # tr) = (n = 3 \<and> is_read e \<and> spaced tr)"
| "spaced _ = False"

section \<open>Object cleanup\<close>

text \<open>
  An object of the bindings, as far as the fixtures look at it: the attribute
  \<open>pulp_href\<close> and the attribute \<open>task\<close>, each present or not. Reading an attribute
  that is not there raises \<open>AttributeError\<close>.
\<close>

record pulp_obj =
  pulp_href :: "string option"
  task :: "string option"

definition getattr_pulp_href :: "pulp_obj \<Rightarrow> exn + string" where
  "getattr_pulp_href ob = (case pulp_href ob of None \<Rightarrow> Inl (AttributeError ''pulp_href'') | Some h \<Rightarrow> Inr h)"

definition getattr_task :: "pulp_obj \<Rightarrow> exn + string" where
  "getattr_task ob = (case task ob of None \<Rightarrow> Inl (AttributeError ''task'') | Some t \<Rightarrow> Inr t)"

text \<open>What \<open>monitor_task\<close> returns: the task, with its \<open>created_resources\<close> and its \<open>str\<close>.\<close>

record task_data_t =
  created_resources :: "string list"
  task_str :: string

text \<open>
  The remote API, over a state \<open>'w\<close> of the remote system: the methods \<open>create\<close>,
  \<open>read\<close> and \<open>delete\<close> of an API client \<open>'c\<close> (\<open>'a\<close> are the arguments of \<open>create\<close>) and
  \<open>monitor_task\<close> of the bindings, which waits for a task. Each returns or raises.
\<close>

record ('c, 'a, 'w) pulp_api =
  api_create :: "'c \<Rightarrow> 'a \<Rightarrow> 'w \<Rightarrow> (exn + pulp_obj) \<times> 'w"
  api_read :: "'c \<Rightarrow> string \<Rightarrow> 'w \<Rightarrow> (exn + pulp_obj) \<times> 'w"
  api_delete :: "'c \<Rightarrow> string \<Rightarrow> 'w \<Rightarrow> (exn + pulp_obj) \<times> 'w"
  monitor_task :: "string \<Rightarrow> 'w \<Rightarrow> (exn + task_data_t) \<times> 'w"

text \<open>
  The calls made to the remote API, with their outcomes. The outcome of \<open>Delete\<close> is
  that of the whole expression \<open>api_client.delete(pulp_href).task\<close>.
\<close>

datatype ('c, 'a) api_event =
    Create 'c 'a "exn + pulp_obj"
  | Read 'c string "exn + pulp_obj"
  | Delete 'c string "exn + string"
  | Monitor string "exn + task_data_t"

text \<open>\<open>_add_to_cleanup(api_client, pulp_href)\<close>: \<open>obj_refs.append((api_client, pulp_href))\<close>.\<close>

definition add_to_cleanup :: "('c \<times> string) list \<Rightarrow> 'c \<Rightarrow> string \<Rightarrow> ('c \<times> string) list" where
  "add_to_cleanup obj_refs api_client href = obj_refs @ [(api_client, href)]"

fun register_all :: "('c \<times> string) list \<Rightarrow> ('c \<times> string) list \<Rightarrow> ('c \<times> string) list" where
  "register_all obj_refs [] = obj_refs"
| "register_all obj_refs ((c, h) # es) = register_all (add_to_cleanup obj_refs c h) es"

text \<open>\<open>api_client.delete(pulp_href).task\<close>.\<close>

definition delete_task :: "('c, 'a, 'w) pulp_api \<Rightarrow> 'c \<Rightarrow> string \<Rightarrow> 'w \<Rightarrow> (exn + string) \<times> 'w" where
  "delete_task api c h w =
     (case api_delete api c h w of
        (Inl e, w') \<Rightarrow> (Inl e, w')
      | (Inr resp, w') \<Rightarrow> (getattr_task resp, w'))"

text \<open>
  The first loop of the teardown, over the list it is given (the caller passes
  \<open>reversed(obj_refs)\<close>): the task hrefs collected, in order, the calls made and the
  final state. \<open>except Exception: pass\<close> drops the exception of an entry.
\<close>

fun delete_objs ::
  "('c, 'a, 'w) pulp_api \<Rightarrow> ('c \<times> string) list \<Rightarrow> 'w \<Rightarrow> string list \<times> ('c, 'a) api_event list \<times> 'w" where
  "delete_objs api [] w = ([], [], w)"
| "delete_objs api ((c, h) # refs) w =
     (let (r, w1) = delete_task api c h w;
          (hrefs, tr, w2) = delete_objs api refs w1
      in ((case r of Inl e \<Rightarrow> hrefs | Inr task_url \<Rightarrow> task_url # hrefs), Delete c h r # tr, w2))"

text \<open>The second loop: \<open>monitor_task\<close> on each collected href; an exception ends it.\<close>

fun monitor_tasks ::
  "('c, 'a, 'w) pulp_api \<Rightarrow> string list \<Rightarrow> 'w \<Rightarrow> (exn + unit) \<times> ('c, 'a) api_event list \<times> 'w" where
  "monitor_tasks api [] w = (Inr (), [], w)"
| "monitor_tasks api (t # ts) w =
     (case monitor_task api t w of
        (Inl e, w1) \<Rightarrow> (Inl e, [Monitor t (Inl e)], w1)
      | (Inr d, w1) \<Rightarrow>
          (let (r, tr, w2) = monitor_tasks api ts w1 in (r, Monitor t (Inr d) # tr, w2)))"

text \<open>The teardown of \<open>add_to_cleanup\<close> (the code after \<open>yield\<close>).\<close>

definition add_to_cleanup_teardown ::
  "('c, 'a, 'w) pulp_api \<Rightarrow> ('c \<times> string) list \<Rightarrow> 'w \<Rightarrow> (exn + unit) \<times> ('c, 'a) api_event list \<times> 'w" where
  "add_to_cleanup_teardown api obj_refs w =
     (let (delete_task_hrefs, tr1, w1) = delete_objs api (rev obj_refs) w;
          (r, tr2, w2) = monitor_tasks api delete_task_hrefs w1
      in (r, tr1 @ tr2, w2))"

text \<open>Observations of a trace.\<close>

fun deleted_refs :: "('c, 'a) api_event list \<Rightarrow> ('c \<times> string) list" where
  "deleted_refs [] = []"
| "deleted_refs (Delete c h r # tr) = (c, h) # deleted_refs tr"
| "deleted_refs (_ # tr) = deleted_refs tr"

fun collected_tasks :: "('c, 'a) api_event list \<Rightarrow> string list" where
  "collected_tasks [] = []"
| "collected_tasks (Delete c h (Inr t) # tr) = t # collected_tasks tr"
| "collected_tasks (_ # tr) = collected_tasks tr"

fun monitored_tasks :: "('c, 'a) api_event list \<Rightarrow> string list" where
  "monitored_tasks [] = []"
| "monitored_tasks (Monitor t r # tr) = t # monitored_tasks tr"
| "monitored_tasks (_ # tr) = monitored_tasks tr"

fun is_delete :: "('c, 'a) api_event \<Rightarrow> bool" where
  "is_delete (Delete _ _ _) = True"
| "is_delete _ = False"

fun is_monitor :: "('c, 'a) api_event \<Rightarrow> bool" where
  "is_monitor (Monitor _ _) = True"
| "is_monitor _ = False"

fun monitor_raised :: "exn \<Rightarrow> ('c, 'a) api_event \<Rightarrow> bool" where
  "monitor_raised e (Monitor _ r) = (r = Inl e)"
| "monitor_raised e _ = False"

subsection \<open>gen_object_with_cleanup\<close>

definition no_created_resource_msg :: "task_data_t \<Rightarrow> string" where
  "no_created_resource_msg task_data =
     ''No appropriate created_resource could be found in task data '' @ task_str task_data"

text \<open>
  The loop over \<open>task_data.created_resources\<close>, and the \<open>raise TypeError(msg)\<close> after
  it. A read that raises is passed over; after the first read that returns, the
  \<open>else\<close> branch registers \<open>new_obj.pulp_href\<close> and returns the object (an
  \<open>AttributeError\<close> of that attribute access is not handled there).
\<close>

fun read_created_resources ::
  "('c, 'a, 'w) pulp_api \<Rightarrow> ('c \<times> string) list \<Rightarrow> 'c \<Rightarrow> task_data_t \<Rightarrow> string list \<Rightarrow> 'w \<Rightarrow>
     (exn + pulp_obj) \<times> ('c \<times> string) list \<times> ('c, 'a) api_event list \<times> 'w" where
  "read_created_resources api obj_refs c task_data [] w =
     (Inl (TypeError (no_created_resource_msg task_data)), obj_refs, [], w)"
| "read_created_resources api obj_refs c task_data (created_resource # rest) w =
     (case api_read api c created_resource w of
        (Inl e, w1) \<Rightarrow>
          (let (r, refs, tr, w2) = read_created_resources api obj_refs c task_data rest w1
           in (r, refs, Read c created_resource (Inl e) # tr, w2))
      | (Inr new_obj, w1) \<Rightarrow>
          (case getattr_pulp_href new_obj of
             Inl e \<Rightarrow> (Inl e, obj_refs, [Read c created_resource (Inr new_obj)], w1)
           | Inr h \<Rightarrow>
               (Inr new_obj, add_to_cleanup obj_refs c h,
                [Read c created_resource (Inr new_obj)], w1)))"

text \<open>
  \<open>_gen_object_with_cleanup(api_client, *args, **kwargs)\<close>: the result, the list
  \<open>obj_refs\<close> of the \<open>add_to_cleanup\<close> fixture afterwards, the calls made, the final state.
\<close>

definition gen_object_with_cleanup ::
  "('c, 'a, 'w) pulp_api \<Rightarrow> ('c \<times> string) list \<Rightarrow> 'c \<Rightarrow> 'a \<Rightarrow> 'w \<Rightarrow>
     (exn + pulp_obj) \<times> ('c \<times> string) list \<times> ('c, 'a) api_event list \<times> 'w" where
  "gen_object_with_cleanup api obj_refs c args w =
     (case api_create api c args w of
        (Inl e, w1) \<Rightarrow> (Inl e, obj_refs, [Create c args (Inl e)], w1)
      | (Inr new_obj, w1) \<Rightarrow>
          (case getattr_pulp_href new_obj of
             Inr h \<Rightarrow> (Inr new_obj, add_to_cleanup obj_refs c h, [Create c args (Inr new_obj)], w1)
           | Inl attribute_error \<Rightarrow>
               (case getattr_task new_obj of
                  Inl e \<Rightarrow> (Inl e, obj_refs, [Create c args (Inr new_obj)], w1)
                | Inr t \<Rightarrow>
                    (case monitor_task api t w1 of
                       (Inl e, w2) \<Rightarrow>
                         (Inl e, obj_refs, [Create c args (Inr new_obj), Monitor t (Inl e)], w2)
                     | (Inr task_data, w2) \<Rightarrow>
                         (let (r, refs, tr, w3) =
                                read_created_resources api obj_refs c task_data
                                  (created_resources task_data) w2
                          in (r, refs,
                              Create c args (Inr new_obj) # Monitor t (Inr task_data) # tr, w3))))))"

text \<open>Observations: the reads made, each with whether it returned.\<close>

fun read_attempts :: "('c, 'a) api_event list \<Rightarrow> ('c \<times> string \<times> bool) list" where
  "read_attempts [] = []"
| "read_attempts (Read c h r # tr) = (c, h, \<not> isl r) # read_attempts tr"
| "read_attempts (_ # tr) = read_attempts tr"

section \<open>Concrete environments\<close>

text \<open>
  A remote API for running the fixtures on concrete inputs; the state counts the
  remote calls. \<open>delete\<close> answers 404 for \<open>/gone/\<close> and otherwise returns a response
  with a task; \<open>create\<close> is task-based; only \<open>/repositories/1/\<close> can be read through the
  client; \<open>monitor_task\<close> returns a task that created a publication and that repository.
\<close>

definition api_ok :: "(nat, unit, nat) pulp_api" where
  "api_ok =
     \<lparr>api_create = (\<lambda>c a w. (Inr \<lparr>pulp_href = None, task = Some ''/tasks/create/''\<rparr>, Suc w)),
      api_read = (\<lambda>c h w.
         if h = ''/repositories/1/'' then (Inr \<lparr>pulp_href = Some h, task = None\<rparr>, Suc w)
         else (Inl ApiException, Suc w)),
      api_delete = (\<lambda>c h w.
         if h = ''/gone/'' then (Inl ApiException, Suc w)
         else (Inr \<lparr>pulp_href = None, task = Some (''/tasks/delete'' @ h)\<rparr>, Suc w)),
      monitor_task = (\<lambda>t w.
         (Inr \<lparr>created_resources = [''/publications/7/'', ''/repositories/1/''], task_str = t\<rparr>,
          Suc w))\<rparr>"

text \<open>The same API when the awaited task has failed: \<open>monitor_task\<close> raises.\<close>

definition api_failing_monitor :: "(nat, unit, nat) pulp_api" where
  "api_failing_monitor =
     api_ok\<lparr>monitor_task := (\<lambda>t w. (Inl (OtherException ''PulpTaskError''), Suc w))\<rparr>"

text \<open>The same API when no created resource can be read through the client.\<close>

definition api_unreadable :: "(nat, unit, nat) pulp_api" where
  "api_unreadable = api_ok\<lparr>api_read := (\<lambda>c h w. (Inl ApiException, Suc w))\<rparr>"

definition status_up :: status_response where
  "status_up =
     \<lparr>online_workers = [''worker@1''], online_content_apps = [''content@1''],
      database_connection = \<lparr>connected = True\<rparr>\<rparr>"

definition status_no_content_app :: status_response where
  "status_no_content_app =
     \<lparr>online_workers = [''worker@1''], online_content_apps = [],
      database_connection = \<lparr>connected = True\<rparr>\<rparr>"

text \<open>
  Services over a state that counts the seconds slept: the API refuses connections
  during the first 6 seconds, has no content app until second 9, and is up afterwards;
  once stopped (state 0 again) it answers for the first 6 seconds, then refuses.
\<close>

definition svc_starting :: "nat svc_env" where
  "svc_starting =
     \<lparr>svc_start = (\<lambda>svcs w. (Inr (), w)),
      svc_stop = (\<lambda>svcs w. (Inr (), w)),
      sleep = (\<lambda>n w. w + n),
      status_read = (\<lambda>w. if w \<le> 6 then (Inr status_up, w) else (Inl MaxRetryError, w)),
      status_read_with_http_info = (\<lambda>w.
         if w \<le> 6 then (Inl MaxRetryError, w)
         else if w \<le> 9 then (Inr (status_no_content_app, 200), w)
         else (Inr (status_up, 200), w))\<rparr>"

text \<open>The same services when a status read raises an exception of another class.\<close>

definition svc_bad_response :: "nat svc_env" where
  "svc_bad_response =
     svc_starting
       \<lparr>status_read := (\<lambda>w. (Inl (ValueError ''Invalid value for `versions`, must not be `None`''), w)),
        status_read_with_http_info :=
          (\<lambda>w. (Inl (ValueError ''Invalid value for `versions`, must not be `None`''), w))\<rparr>"


definition svc_stays_up :: "nat svc_env" where
  "svc_stays_up = svc_starting\<lparr>status_read := (\<lambda>w. (Inr status_up, w))\<rparr>"

text \<open>
  A remote API whose state is the log of what was done to the remote system: \<open>delete\<close>
  removes an object and returns a response with its deletion task, or answers 404 when
  the object was deleted before; \<open>monitor_task\<close> waits for a task.
\<close>

definition api_recording :: "(nat, unit, string list) pulp_api" where
  "api_recording =
     \<lparr>api_create = (\<lambda>c a w. (Inr \<lparr>pulp_href = None, task = Some ''/tasks/create/''\<rparr>, w)),
      api_read = (\<lambda>c h w. (Inl ApiException, w)),
      api_delete = (\<lambda>c h w.
         if (''DELETE '' @ h) \<in> set w then (Inl ApiException, w @ [''404 '' @ h])
         else (Inr \<lparr>pulp_href = None, task = Some (''/tasks/delete'' @ h)\<rparr>,
               w @ [''DELETE '' @ h])),
      monitor_task = (\<lambda>t w. (Inr \<lparr>created_resources = [], task_str = t\<rparr>, w @ [''WAIT '' @ t]))\<rparr>"

section \<open>Properties of make_url\<close>

text \<open>
  C7. For all paths not starting with "/", \<open>make_url\<close> fails with a value error. The
  empty path does not start with "/", and there \<open>make_url\<close> does not fail with a value
  error: whatever the handle and the message, the result is not that \<open>ValueError\<close>.
\<close>

theorem make_url_empty_path_not_value_error:
  "make_url self '''' \<noteq> Inl (ValueError msg)"
  by (simp add: make_url_def)

text \<open>Every non-empty path that starts with another character is rejected with the value error.\<close>

lemma make_url_rejects_other_first_character:
  "c \<noteq> CHR ''/'' \<Longrightarrow> make_url self (c # rest) = Inl (ValueError make_url_error)"
  by (simp add: make_url_def)

text \<open>
  C8. For every path starting with "/", \<open>make_url\<close> returns the scheme "https://" when
  the handle's TLS context is present and "http://" when it is absent, then the handle's
  host, a colon, the handle's port in decimal, and the path.
\<close>

theorem make_url_scheme_host_port:
  assumes "path = CHR ''/'' # rest"
  shows "make_url self path =
           Inr ((if ssl_ctx self = None then ''http://'' else ''https://'')
                @ host self @ '':'' @ str_int (port self) @ path)"
  using assms by (simp add: make_url_def)

theorem make_url_scheme_host_port_witness:
  "make_url \<lparr>host = ''localhost'', port = 8080, shutdown_event = 0, thread = 0,
             ssl_ctx = Some (), requests_record = ()\<rparr> ''/file''
     = Inr ''https://localhost:8080/file''"
  using make_url_scheme_host_port [of "''/file''" "''file''"
      "\<lparr>host = ''localhost'', port = 8080, shutdown_event = 0, thread = 0,
        ssl_ctx = Some (), requests_record = ()\<rparr>"]
  by (simp add: str_int_def str_nat.simps digit_char_def)

text \<open>
  The handle that \<open>_gen_threaded_aiohttp_server\<close> returns carries the configured origin
  and the port that \<open>unused_port\<close> gave, the same pair the started thread binds.
\<close>

lemma gen_threaded_aiohttp_server_handle:
  assumes "gen_threaded_aiohttp_server env st app ssl cr = (d, st')"
  shows "host d = aiohttp_fixtures_origin env"
    and "port d = fst (unused_port env (os st))"
    and "ssl_ctx d = ssl"
    and "t_host (threads st' ! thread d) = host d"
    and "t_port (threads st' ! thread d) = port d"
  using assms
  by (auto simp: gen_threaded_aiohttp_server_def Let_def split: prod.splits)

text \<open>
  C10. \<open>make_url\<close> called with the empty string fails with an index error, from indexing
  \<open>path[0]\<close>, and neither with a value error nor with a URL.
\<close>

theorem make_url_empty_path_index_error:
  "make_url self '''' = Inl (IndexError ''string index out of range'')
   \<and> (\<forall>msg. make_url self '''' \<noteq> Inl (ValueError msg))
   \<and> (\<forall>url. make_url self '''' \<noteq> Inr url)"
  by (simp add: make_url_def)

section \<open>Teardown of the fixture servers\<close>

lemma run_loop_set: "run_loop True n = Some (Suc n)"
  by (subst run_loop.simps) simp

lemma fixture_init_wf: "fixture_wf (fixture_init o0)"
  by (simp add: fixture_wf_def fixture_init_def)

lemma gen_wf:
  assumes "fixture_wf st"
  shows "fixture_wf (snd (gen_threaded_aiohttp_server env st app ssl cr))"
    and "length (threads (snd (gen_threaded_aiohttp_server env st app ssl cr))) = Suc (length (threads st))"
  using assms
  by (auto simp: fixture_wf_def gen_threaded_aiohttp_server_def Let_def split: prod.splits)

lemma gen_servers_wf:
  "fixture_wf st \<Longrightarrow>
     fixture_wf (gen_servers env st calls)
     \<and> length (threads (gen_servers env st calls)) = length (threads st) + length calls"
proof (induction calls arbitrary: st)
  case Nil
  then show ?case by simp
next
  case (Cons call calls)
  obtain app ssl cr where c: "call = (app, ssl, cr)" by (cases call) auto
  from Cons.prems have "fixture_wf (snd (gen_threaded_aiohttp_server env st app ssl cr))"
    by (rule gen_wf(1))
  from Cons.IH [OF this] gen_wf(2) [OF Cons.prems, of env app ssl cr]
  show ?case by (simp add: c)
qed

lemma set_events_Cons:
  "set_events (d # ds) evs =
     (fst (set_events ds (evs[shutdown_event d := True])),
      EventSet (shutdown_event d) # snd (set_events ds (evs[shutdown_event d := True])))"
  by (simp add: case_prod_beta)

lemma set_events_trace:
  "snd (set_events ds evs) = map (\<lambda>d. EventSet (shutdown_event d)) ds"
  by (induction ds arbitrary: evs) (simp_all add: set_events_Cons del: set_events.simps(2))

lemma set_events_length:
  "length (fst (set_events ds evs)) = length evs"
  by (induction ds arbitrary: evs) (simp_all add: set_events_Cons del: set_events.simps(2))

lemma set_events_nth:
  "i < length evs \<Longrightarrow>
     fst (set_events ds evs) ! i = (evs ! i \<or> i \<in> shutdown_event ` set ds)"
proof (induction ds arbitrary: evs)
  case Nil
  then show ?case by simp
next
  case (Cons d ds)
  have "fst (set_events (d # ds) evs) = fst (set_events ds (evs[shutdown_event d := True]))"
    by (simp add: set_events_Cons del: set_events.simps(2))
  moreover have "fst (set_events ds (evs[shutdown_event d := True])) ! i =
      (evs[shutdown_event d := True] ! i \<or> i \<in> shutdown_event ` set ds)"
    using Cons.IH [of "evs[shutdown_event d := True]"] Cons.prems by simp
  moreover have "evs[shutdown_event d := True] ! i = (evs ! i \<or> i = shutdown_event d)"
    using Cons.prems by (cases "i = shutdown_event d") simp_all
  ultimately show ?case by auto
qed

lemma thread_join_finishes:
  assumes "th < length ths"
    and "t_shutdown_event (ths ! th) < length evs"
    and "evs ! t_shutdown_event (ths ! th)"
  shows "thread_join evs ths th = Some (ths[th := (ths ! th)\<lparr>status := Finished\<rparr>])"
proof (cases "status (ths ! th)")
  case Running
  with assms show ?thesis by (simp add: thread_join_def run_loop_set)
next
  case Finished
  have "(ths ! th)\<lparr>status := status (ths ! th)\<rparr> = ths ! th" by simp
  then have "(ths ! th)\<lparr>status := Finished\<rparr> = ths ! th" by (simp only: Finished)
  then have eq: "ths[th := (ths ! th)\<lparr>status := Finished\<rparr>] = ths" by (simp only: list_update_id)
  show ?thesis using Finished assms(1) by (simp add: thread_join_def eq)
qed

lemma join_threads_all:
  assumes "\<forall>d\<in>set ds. thread d < length ths"
    and "\<forall>i<length ths. t_shutdown_event (ths ! i) < length evs \<and> evs ! t_shutdown_event (ths ! i)"
  shows "\<exists>ths'. join_threads ds evs ths = Some (ths', map (\<lambda>d. ThreadJoin (thread d)) ds)
           \<and> length ths' = length ths
           \<and> (\<forall>i<length ths. t_shutdown_event (ths' ! i) = t_shutdown_event (ths ! i)
                \<and> status (ths' ! i) = (if i \<in> thread ` set ds then Finished else status (ths ! i)))"
  using assms
proof (induction ds arbitrary: ths)
  case Nil
  then show ?case by simp
next
  case (Cons d ds)
  let ?ths1 = "ths[thread d := (ths ! thread d)\<lparr>status := Finished\<rparr>]"
  have th: "thread d < length ths" using Cons.prems(1) by simp
  have j: "thread_join evs ths (thread d) = Some ?ths1"
    using th Cons.prems(2) by (intro thread_join_finishes) auto
  have p1: "\<forall>d\<in>set ds. thread d < length ?ths1" using Cons.prems(1) by simp
  have p2: "\<forall>i<length ?ths1. t_shutdown_event (?ths1 ! i) < length evs \<and> evs ! t_shutdown_event (?ths1 ! i)"
    using Cons.prems(2) th by (auto simp: nth_list_update)
  from Cons.IH [OF p1 p2] obtain ths' where
    a: "join_threads ds evs ?ths1 = Some (ths', map (\<lambda>d. ThreadJoin (thread d)) ds)"
    and b: "length ths' = length ?ths1"
    and c: "\<forall>i<length ?ths1. t_shutdown_event (ths' ! i) = t_shutdown_event (?ths1 ! i)
                \<and> status (ths' ! i) = (if i \<in> thread ` set ds then Finished else status (?ths1 ! i))"
    by blast
  have "join_threads (d # ds) evs ths = Some (ths', map (\<lambda>d. ThreadJoin (thread d)) (d # ds))"
    using j a by simp
  moreover have "length ths' = length ths" using b by simp
  moreover have "\<forall>i<length ths. t_shutdown_event (ths' ! i) = t_shutdown_event (ths ! i)
                \<and> status (ths' ! i) = (if i \<in> thread ` set (d # ds) then Finished else status (ths ! i))"
    using c th by (auto simp: nth_list_update)
  ultimately show ?case by blast
qed

lemma teardown_wf:
  assumes wf: "fixture_wf st"
  shows "\<exists>st'. gen_threaded_aiohttp_server_teardown st =
             Some (st', map EventSet [0..<length (threads st)] @ map ThreadJoin [0..<length (threads st)])
           \<and> length (threads st') = length (threads st)
           \<and> (\<forall>t\<in>set (threads st'). status t = Finished)
           \<and> (\<forall>e\<in>set (events st'). e)"
proof -
  let ?n = "length (threads st)"
  let ?ds = "fixture_servers_data st"
  obtain evs tr1 where se: "set_events ?ds (events st) = (evs, tr1)" by (cases "set_events ?ds (events st)")
  have se_img: "shutdown_event ` set ?ds = {0..<?n}"
    using wf by (metis fixture_wf_def set_map set_upt)
  have th_img: "thread ` set ?ds = {0..<?n}"
    using wf by (metis fixture_wf_def set_map set_upt)
  have e1: "map shutdown_event ?ds = [0..<?n]" using wf by (simp add: fixture_wf_def)
  have e2: "map thread ?ds = [0..<?n]" using wf by (simp add: fixture_wf_def)
  have tr1: "tr1 = map EventSet [0..<?n]"
  proof -
    have "tr1 = map (\<lambda>d. EventSet (shutdown_event d)) ?ds"
      using set_events_trace [of ?ds "events st"] se by simp
    also have "\<dots> = map EventSet (map shutdown_event ?ds)" by (simp add: comp_def)
    also have "\<dots> = map EventSet [0..<?n]" by (simp only: e1)
    finally show ?thesis .
  qed
  have len: "length evs = ?n"
    using set_events_length [of ?ds "events st"] se wf by (simp add: fixture_wf_def)
  have alltrue: "\<forall>i<?n. evs ! i"
    using set_events_nth [of _ "events st" ?ds] se se_img wf by (simp add: fixture_wf_def)
  have tse: "\<forall>i<?n. t_shutdown_event (threads st ! i) = i"
  proof (intro allI impI)
    fix i assume "i < ?n"
    then have "map t_shutdown_event (threads st) ! i = t_shutdown_event (threads st ! i)" by simp
    moreover have "map t_shutdown_event (threads st) ! i = i"
      using wf \<open>i < ?n\<close> by (simp add: fixture_wf_def)
    ultimately show "t_shutdown_event (threads st ! i) = i" by simp
  qed
  have p1: "\<forall>d\<in>set ?ds. thread d < ?n" using th_img by auto
  have p2: "\<forall>i<?n. t_shutdown_event (threads st ! i) < length evs \<and> evs ! t_shutdown_event (threads st ! i)"
    using tse len alltrue by simp
  from join_threads_all [OF p1 p2] obtain ths' where
    a: "join_threads ?ds evs (threads st) = Some (ths', map (\<lambda>d. ThreadJoin (thread d)) ?ds)"
    and b: "length ths' = ?n"
    and c: "\<forall>i<?n. t_shutdown_event (ths' ! i) = t_shutdown_event (threads st ! i)
                \<and> status (ths' ! i) = (if i \<in> thread ` set ?ds then Finished else status (threads st ! i))"
    by blast
  have tr2: "map (\<lambda>d. ThreadJoin (thread d)) ?ds = map ThreadJoin [0..<?n]"
  proof -
    have "map (\<lambda>d. ThreadJoin (thread d)) ?ds = map ThreadJoin (map thread ?ds)" by (simp add: comp_def)
    also have "\<dots> = map ThreadJoin [0..<?n]" by (simp only: e2)
    finally show ?thesis .
  qed
  have fin: "\<forall>t\<in>set ths'. status t = Finished"
    using b c th_img by (auto simp: in_set_conv_nth)
  have evt: "\<forall>e\<in>set evs. e" using len alltrue by (auto simp: in_set_conv_nth)
  have "gen_threaded_aiohttp_server_teardown st =
          Some (st\<lparr>events := evs, threads := ths'\<rparr>, map EventSet [0..<?n] @ map ThreadJoin [0..<?n])"
    using se a tr1 tr2 by (simp add: gen_threaded_aiohttp_server_teardown_def)
  then show ?thesis using b fin evt by auto
qed

text \<open>
  C9. At the teardown of the fixture servers, whatever servers the test started, the
  shutdown event of every server is set, in registration order, before any thread is
  joined; then every thread is joined, in registration order; the teardown returns, and
  every thread has finished when it does.
\<close>

theorem fixture_teardown_sets_then_joins:
  "\<exists>st'. gen_threaded_aiohttp_server_teardown (gen_servers env (fixture_init o0) calls) =
            Some (st', map EventSet [0..<length calls] @ map ThreadJoin [0..<length calls])
         \<and> length (threads st') = length calls
         \<and> (\<forall>t\<in>set (threads st'). status t = Finished)
         \<and> (\<forall>e\<in>set (events st'). e)"
proof -
  let ?st = "gen_servers env (fixture_init o0) calls"
  have wf: "fixture_wf ?st" and n: "length (threads ?st) = length calls"
    using gen_servers_wf [OF fixture_init_wf, of env o0 calls]
    by (simp_all add: fixture_init_def)
  from teardown_wf [OF wf] show ?thesis by (simp only: n)
qed

theorem fixture_teardown_sets_then_joins_witness:
  "map_option snd
     (gen_threaded_aiohttp_server_teardown
        (gen_servers
           \<lparr>aiohttp_fixtures_origin = ''localhost'',
             unused_port = (\<lambda>o1. (8080 + int o1, Suc o1)),
             site_start = (\<lambda>h p o1. (True, o1))\<rparr>
           (fixture_init (0::nat)) [((), None, ()), ((), Some (), ())]))
   = Some [EventSet 0, EventSet 1, ThreadJoin 0, ThreadJoin 1]"
  using fixture_teardown_sets_then_joins
    [of "\<lparr>aiohttp_fixtures_origin = ''localhost'',
          unused_port = (\<lambda>o1. (8080 + int o1, Suc o1)),
          site_start = (\<lambda>h p o1. (True, o1))\<rparr>"
        "0::nat" "[((), None, ()), ((), Some (), ())]"]
  by (auto simp: upt_rec)

section \<open>Properties of the cleanup teardown\<close>

lemma register_all_append: "register_all obj_refs es = obj_refs @ es"
  by (induction es arbitrary: obj_refs) (auto simp: add_to_cleanup_def)

lemma deleted_refs_append: "deleted_refs (a @ b) = deleted_refs a @ deleted_refs b"
  by (induction a rule: deleted_refs.induct) simp_all

lemma collected_tasks_append: "collected_tasks (a @ b) = collected_tasks a @ collected_tasks b"
  by (induction a rule: collected_tasks.induct) simp_all

lemma monitored_tasks_append: "monitored_tasks (a @ b) = monitored_tasks a @ monitored_tasks b"
  by (induction a rule: monitored_tasks.induct) simp_all

lemma delete_objs_Cons:
  "delete_objs api ((c, h) # refs) w =
     (let r = fst (delete_task api c h w);
          rest = delete_objs api refs (snd (delete_task api c h w))
      in ((case r of Inl e \<Rightarrow> fst rest | Inr task_url \<Rightarrow> task_url # fst rest),
          Delete c h r # fst (snd rest), snd (snd rest)))"
  by (simp add: case_prod_beta Let_def)

lemma delete_objs_trace:
  "deleted_refs (fst (snd (delete_objs api refs w))) = refs
   \<and> collected_tasks (fst (snd (delete_objs api refs w))) = fst (delete_objs api refs w)
   \<and> monitored_tasks (fst (snd (delete_objs api refs w))) = []
   \<and> list_all is_delete (fst (snd (delete_objs api refs w)))"
proof (induction refs arbitrary: w)
  case Nil
  show ?case by simp
next
  case (Cons ref refs)
  obtain c h where ref: "ref = (c, h)" by (cases ref)
  show ?case
    using Cons.IH [of "snd (delete_task api c h w)"]
    by (cases "fst (delete_task api c h w)")
       (simp_all add: ref delete_objs_Cons Let_def del: delete_objs.simps(2))
qed

lemma monitor_tasks_Cons:
  "monitor_tasks api (t # ts) w =
     (case fst (monitor_task api t w) of
        Inl e \<Rightarrow> (Inl e, [Monitor t (Inl e)], snd (monitor_task api t w))
      | Inr d \<Rightarrow>
          (fst (monitor_tasks api ts (snd (monitor_task api t w))),
           Monitor t (Inr d) # fst (snd (monitor_tasks api ts (snd (monitor_task api t w)))),
           snd (snd (monitor_tasks api ts (snd (monitor_task api t w))))))"
  by (cases "monitor_task api t w") (simp add: case_prod_beta split: sum.splits)

lemma monitor_tasks_trace:
  "deleted_refs (fst (snd (monitor_tasks api ts w))) = []
   \<and> collected_tasks (fst (snd (monitor_tasks api ts w))) = []
   \<and> list_all is_monitor (fst (snd (monitor_tasks api ts w)))
   \<and> monitored_tasks (fst (snd (monitor_tasks api ts w)))
       = take (length (monitored_tasks (fst (snd (monitor_tasks api ts w))))) ts"
proof (induction ts arbitrary: w)
  case Nil
  show ?case by simp
next
  case (Cons t ts)
  show ?case
    using Cons.IH [of "snd (monitor_task api t w)"]
    by (cases "fst (monitor_task api t w)")
       (simp_all add: monitor_tasks_Cons del: monitor_tasks.simps(2))
qed

lemma monitor_tasks_returns:
  "fst (monitor_tasks api ts w) = Inr u \<Longrightarrow> monitored_tasks (fst (snd (monitor_tasks api ts w))) = ts"
proof (induction ts arbitrary: w)
  case Nil
  show ?case by simp
next
  case (Cons t ts)
  show ?case
    using Cons.IH [of "snd (monitor_task api t w)"] Cons.prems
    by (cases "fst (monitor_task api t w)")
       (simp_all add: monitor_tasks_Cons del: monitor_tasks.simps(2))
qed

lemma monitor_tasks_raises:
  "fst (monitor_tasks api ts w) = Inl e \<Longrightarrow>
     fst (snd (monitor_tasks api ts w)) \<noteq> []
     \<and> monitor_raised e (last (fst (snd (monitor_tasks api ts w))))"
proof (induction ts arbitrary: w)
  case Nil
  then show ?case by simp
next
  case (Cons t ts)
  show ?case
    using Cons.IH [of "snd (monitor_task api t w)"] Cons.prems
    by (cases "fst (monitor_task api t w)")
       (simp_all add: monitor_tasks_Cons del: monitor_tasks.simps(2))
qed

lemma monitor_tasks_total:
  "(\<And>t w. \<not> isl (fst (monitor_task api t w))) \<Longrightarrow> fst (monitor_tasks api ts w) = Inr ()"
proof (induction ts arbitrary: w)
  case Nil
  show ?case by simp
next
  case (Cons t ts)
  from Cons.prems [of t w] obtain d where d: "fst (monitor_task api t w) = Inr d"
    by (cases "fst (monitor_task api t w)") auto
  show ?case
    using Cons.IH [of "snd (monitor_task api t w)"] Cons.prems d
    by (simp add: monitor_tasks_Cons del: monitor_tasks.simps(2))
qed

lemma teardown_unfold:
  "add_to_cleanup_teardown api obj_refs w =
     (fst (monitor_tasks api (fst (delete_objs api (rev obj_refs) w))
             (snd (snd (delete_objs api (rev obj_refs) w)))),
      fst (snd (delete_objs api (rev obj_refs) w))
        @ fst (snd (monitor_tasks api (fst (delete_objs api (rev obj_refs) w))
             (snd (snd (delete_objs api (rev obj_refs) w))))),
      snd (snd (monitor_tasks api (fst (delete_objs api (rev obj_refs) w))
             (snd (snd (delete_objs api (rev obj_refs) w))))))"
  by (simp add: add_to_cleanup_teardown_def case_prod_beta Let_def)

lemma delete_task_fst:
  "fst (delete_task api c h w) =
     (case fst (api_delete api c h w) of Inl e \<Rightarrow> Inl e | Inr resp \<Rightarrow> getattr_task resp)"
  by (cases "api_delete api c h w") (simp add: delete_task_def split: sum.splits)

lemma delete_task_snd: "snd (delete_task api c h w) = snd (api_delete api c h w)"
  by (cases "api_delete api c h w") (simp add: delete_task_def split: sum.splits)

lemma delete_objs_length: "length (fst (snd (delete_objs api refs w))) = length refs"
proof (induction refs arbitrary: w)
  case Nil
  show ?case by simp
next
  case (Cons ref refs)
  obtain c h where ref: "ref = (c, h)" by (cases ref)
  show ?case
    using Cons.IH [of "snd (delete_task api c h w)"]
    by (simp add: ref delete_objs_Cons Let_def del: delete_objs.simps(2))
qed

lemma delete_objs_state:
  "snd (snd (delete_objs api refs w)) =
     foldl (\<lambda>w1 ref. snd (api_delete api (fst ref) (snd ref) w1)) w refs"
proof (induction refs arbitrary: w)
  case Nil
  show ?case by simp
next
  case (Cons ref refs)
  obtain c h where ref: "ref = (c, h)" by (cases ref)
  show ?case
    using Cons.IH [of "snd (delete_task api c h w)"]
    by (simp add: ref delete_objs_Cons Let_def delete_task_snd del: delete_objs.simps(2))
qed

lemma delete_objs_nth:
  "i < length refs \<Longrightarrow>
     fst (snd (delete_objs api refs w)) ! i =
       Delete (fst (refs ! i)) (snd (refs ! i))
         (case fst (api_delete api (fst (refs ! i)) (snd (refs ! i))
                      (foldl (\<lambda>w1 ref. snd (api_delete api (fst ref) (snd ref) w1)) w (take i refs)))
          of Inl e \<Rightarrow> Inl e | Inr resp \<Rightarrow> getattr_task resp)"
proof (induction refs arbitrary: w i)
  case Nil
  then show ?case by simp
next
  case (Cons ref refs)
  obtain c h where ref: "ref = (c, h)" by (cases ref)
  show ?case
  proof (cases i)
    case 0
    then show ?thesis
      by (simp add: ref delete_objs_Cons Let_def delete_task_fst del: delete_objs.simps(2))
  next
    case (Suc j)
    with Cons.prems have j: "j < length refs" by simp
    from Cons.IH [OF j, of "snd (delete_task api c h w)"] show ?thesis
      by (simp add: Suc ref delete_objs_Cons Let_def delete_task_snd del: delete_objs.simps(2))
  qed
qed

lemma monitor_tasks_all_monitors:
  "length (monitored_tasks (fst (snd (monitor_tasks api ts w)))) = length (fst (snd (monitor_tasks api ts w)))"
proof (induction ts arbitrary: w)
  case Nil
  show ?case by simp
next
  case (Cons t ts)
  show ?case
    using Cons.IH [of "snd (monitor_task api t w)"]
    by (cases "fst (monitor_task api t w)")
       (simp_all add: monitor_tasks_Cons del: monitor_tasks.simps(2))
qed

lemma monitor_tasks_state:
  "snd (snd (monitor_tasks api ts w)) =
     foldl (\<lambda>w1 t. snd (monitor_task api t w1)) w
       (monitored_tasks (fst (snd (monitor_tasks api ts w))))"
proof (induction ts arbitrary: w)
  case Nil
  show ?case by simp
next
  case (Cons t ts)
  show ?case
    using Cons.IH [of "snd (monitor_task api t w)"]
    by (cases "fst (monitor_task api t w)")
       (simp_all add: monitor_tasks_Cons del: monitor_tasks.simps(2))
qed

lemma monitor_tasks_nth:
  "j < length (fst (snd (monitor_tasks api ts w))) \<Longrightarrow>
     j < length ts \<and>
     fst (snd (monitor_tasks api ts w)) ! j =
       Monitor (ts ! j)
         (fst (monitor_task api (ts ! j)
                 (foldl (\<lambda>w1 t. snd (monitor_task api t w1)) w (take j ts))))"
proof (induction ts arbitrary: w j)
  case Nil
  then show ?case by simp
next
  case (Cons t ts)
  show ?case
  proof (cases "fst (monitor_task api t w)")
    case (Inl e)
    with Cons.prems have "j = 0" by (simp add: monitor_tasks_Cons del: monitor_tasks.simps(2))
    with Inl show ?thesis by (simp add: monitor_tasks_Cons del: monitor_tasks.simps(2))
  next
    case (Inr d)
    show ?thesis
    proof (cases j)
      case 0
      with Inr show ?thesis by (simp add: monitor_tasks_Cons del: monitor_tasks.simps(2))
    next
      case (Suc k)
      with Cons.prems Inr
      have k: "k < length (fst (snd (monitor_tasks api ts (snd (monitor_task api t w)))))"
        by (simp add: monitor_tasks_Cons del: monitor_tasks.simps(2))
      from Cons.IH [OF k] Inr show ?thesis
        by (simp add: Suc monitor_tasks_Cons del: monitor_tasks.simps(2))
    qed
  qed
qed

lemma teardown_returns_without_monitor_error:
  assumes "\<forall>t w1. \<not> isl (fst (monitor_task api t w1))"
  shows "fst (add_to_cleanup_teardown api obj_refs w) = Inr ()"
  using assms by (simp add: teardown_unfold monitor_tasks_total)

text \<open>
  C1. Whatever entries a test registers through \<open>add_to_cleanup\<close>, the teardown calls
  \<open>delete\<close> on each registered entry exactly once, in reverse order of registration:
  the delete calls of the teardown, in the order they are made, are the reversed list of
  the registered entries, and the \<open>i\<close>-th of them is the call of the client's \<open>delete\<close>
  on the \<open>i\<close>-th entry from the end, made on the remote system as the earlier deletions
  left it, with the outcome that call has there.
\<close>

theorem cleanup_deletes_in_reverse_order:
  "deleted_refs (fst (snd (add_to_cleanup_teardown api (register_all [] entries) w))) = rev entries
   \<and> (\<forall>i<length entries.
         fst (snd (add_to_cleanup_teardown api (register_all [] entries) w)) ! i =
           Delete (fst (rev entries ! i)) (snd (rev entries ! i))
             (case fst (api_delete api (fst (rev entries ! i)) (snd (rev entries ! i))
                          (foldl (\<lambda>w1 ref. snd (api_delete api (fst ref) (snd ref) w1)) w
                             (take i (rev entries))))
              of Inl e \<Rightarrow> Inl e | Inr resp \<Rightarrow> getattr_task resp))"
proof (intro conjI allI impI)
  show "deleted_refs (fst (snd (add_to_cleanup_teardown api (register_all [] entries) w))) = rev entries"
    by (simp add: teardown_unfold deleted_refs_append delete_objs_trace monitor_tasks_trace
        register_all_append)
next
  fix i assume i: "i < length entries"
  then have l: "i < length (fst (snd (delete_objs api (rev entries) w)))"
    by (simp add: delete_objs_length)
  have "fst (snd (add_to_cleanup_teardown api (register_all [] entries) w)) ! i
          = fst (snd (delete_objs api (rev entries) w)) ! i"
    using l by (simp add: teardown_unfold register_all_append nth_append)
  also have "\<dots> = Delete (fst (rev entries ! i)) (snd (rev entries ! i))
             (case fst (api_delete api (fst (rev entries ! i)) (snd (rev entries ! i))
                          (foldl (\<lambda>w1 ref. snd (api_delete api (fst ref) (snd ref) w1)) w
                             (take i (rev entries))))
              of Inl e \<Rightarrow> Inl e | Inr resp \<Rightarrow> getattr_task resp)"
    using i by (intro delete_objs_nth) simp
  finally show "fst (snd (add_to_cleanup_teardown api (register_all [] entries) w)) ! i =
           Delete (fst (rev entries ! i)) (snd (rev entries ! i))
             (case fst (api_delete api (fst (rev entries ! i)) (snd (rev entries ! i))
                          (foldl (\<lambda>w1 ref. snd (api_delete api (fst ref) (snd ref) w1)) w
                             (take i (rev entries))))
              of Inl e \<Rightarrow> Inl e | Inr resp \<Rightarrow> getattr_task resp)" .
qed

text \<open>
  Entries registered in the order A, B, C on a remote system that logs what is done to
  it: the objects are deleted in the order C, B, A, each once, and then the three
  deletion tasks are awaited.
\<close>

theorem cleanup_deletes_in_reverse_order_witness:
  "add_to_cleanup_teardown api_recording
       (register_all [] [(1, ''/a/''), (2, ''/b/''), (3, ''/c/'')]) [] =
     (Inr (),
      [Delete 3 ''/c/'' (Inr ''/tasks/delete/c/''),
       Delete 2 ''/b/'' (Inr ''/tasks/delete/b/''),
       Delete 1 ''/a/'' (Inr ''/tasks/delete/a/''),
       Monitor ''/tasks/delete/c/'' (Inr \<lparr>created_resources = [], task_str = ''/tasks/delete/c/''\<rparr>),
       Monitor ''/tasks/delete/b/'' (Inr \<lparr>created_resources = [], task_str = ''/tasks/delete/b/''\<rparr>),
       Monitor ''/tasks/delete/a/'' (Inr \<lparr>created_resources = [], task_str = ''/tasks/delete/a/''\<rparr>)],
      [''DELETE /c/'', ''DELETE /b/'', ''DELETE /a/'',
       ''WAIT /tasks/delete/c/'', ''WAIT /tasks/delete/b/'', ''WAIT /tasks/delete/a/''])"
  using cleanup_deletes_in_reverse_order
    [of api_recording "[(1, ''/a/''), (2, ''/b/''), (3, ''/c/'')]" "[]"]
  by (simp add: add_to_cleanup_teardown_def add_to_cleanup_def delete_task_def getattr_task_def
      api_recording_def)

text \<open>
  C2, as the code has it. An exception raised by the deletion of one entry is dropped for
  that entry only: whatever the deletions do, every entry has its deletion attempted, in
  reverse order. The teardown raises only an exception that \<open>monitor_task\<close> raised while
  waiting for a collected task (its last call); when \<open>monitor_task\<close> does not raise, the
  teardown raises nothing, however many deletions fail.
\<close>

theorem cleanup_swallows_delete_errors:
  "deleted_refs (fst (snd (add_to_cleanup_teardown api obj_refs w))) = rev obj_refs
   \<and> (\<forall>e. fst (add_to_cleanup_teardown api obj_refs w) = Inl e \<longrightarrow>
          fst (snd (add_to_cleanup_teardown api obj_refs w)) \<noteq> []
          \<and> monitor_raised e (last (fst (snd (add_to_cleanup_teardown api obj_refs w)))))
   \<and> ((\<forall>t w1. \<not> isl (fst (monitor_task api t w1))) \<longrightarrow>
          fst (add_to_cleanup_teardown api obj_refs w) = Inr ())"
proof (intro conjI allI impI)
  show "deleted_refs (fst (snd (add_to_cleanup_teardown api obj_refs w))) = rev obj_refs"
    by (simp add: teardown_unfold deleted_refs_append delete_objs_trace monitor_tasks_trace)
next
  fix e assume "fst (add_to_cleanup_teardown api obj_refs w) = Inl e"
  then have r: "fst (monitor_tasks api (fst (delete_objs api (rev obj_refs) w))
             (snd (snd (delete_objs api (rev obj_refs) w)))) = Inl e"
    by (simp add: teardown_unfold)
  from monitor_tasks_raises [OF r]
  show "fst (snd (add_to_cleanup_teardown api obj_refs w)) \<noteq> []"
    and "monitor_raised e (last (fst (snd (add_to_cleanup_teardown api obj_refs w))))"
    by (simp_all add: teardown_unfold)
next
  assume "\<forall>t w1. \<not> isl (fst (monitor_task api t w1))"
  then show "fst (add_to_cleanup_teardown api obj_refs w) = Inr ()"
    by (rule teardown_returns_without_monitor_error)
qed

text \<open>
  Three entries, the deletion of the second raising: all three deletions are made, in
  reverse order, the two tasks are awaited and the teardown raises nothing.
\<close>

theorem cleanup_swallows_delete_errors_witness:
  "add_to_cleanup_teardown api_ok [(1, ''/a/''), (2, ''/gone/''), (3, ''/b/'')] 0 =
     (Inr (),
      [Delete 3 ''/b/'' (Inr ''/tasks/delete/b/''),
       Delete 2 ''/gone/'' (Inl ApiException),
       Delete 1 ''/a/'' (Inr ''/tasks/delete/a/''),
       Monitor ''/tasks/delete/b/''
         (Inr \<lparr>created_resources = [''/publications/7/'', ''/repositories/1/''],
               task_str = ''/tasks/delete/b/''\<rparr>),
       Monitor ''/tasks/delete/a/''
         (Inr \<lparr>created_resources = [''/publications/7/'', ''/repositories/1/''],
               task_str = ''/tasks/delete/a/''\<rparr>)],
      5)"
  using cleanup_swallows_delete_errors [of api_ok "[(1, ''/a/''), (2, ''/gone/''), (3, ''/b/'')]" 0]
  by (simp add: add_to_cleanup_teardown_def delete_task_def getattr_task_def api_ok_def)

text \<open>
  C2 without that proviso fails: one entry whose deletion returns a task, and
  \<open>monitor_task\<close> raising on that task; the teardown raises that exception.
\<close>

theorem cleanup_teardown_raises_counterexample:
  "fst (add_to_cleanup_teardown api_failing_monitor [(1, ''/repositories/1/'')] 0)
     = Inl (OtherException ''PulpTaskError'')"
  by (simp add: add_to_cleanup_teardown_def delete_task_def getattr_task_def
      api_failing_monitor_def api_ok_def)

text \<open>
  C3. The task of every entry whose deletion succeeds and returns a task is collected
  (the collected list is the list of those tasks, in the order of the deletions). After
  all deletions, \<open>monitor_task\<close> is called on the collected tasks in that order, each
  call made on the remote system as the deletions and the earlier waits left it, and the
  teardown ends in the state the last wait left. When the teardown returns, every
  collected task has been awaited, and it returns whenever \<open>monitor_task\<close> does. (When
  \<open>monitor_task\<close> raises, the teardown does not return: it raises there, and the tasks
  awaited are the collected ones up to that one.)
\<close>

theorem cleanup_monitors_collected_tasks:
  assumes "add_to_cleanup_teardown api obj_refs w = (r, tr, w')"
  shows "collected_tasks tr = fst (delete_objs api (rev obj_refs) w)
   \<and> (\<exists>tr1 tr2. tr = tr1 @ tr2 \<and> list_all is_delete tr1 \<and> list_all is_monitor tr2)
   \<and> (r = Inr () \<longrightarrow> monitored_tasks tr = collected_tasks tr)
   \<and> ((\<forall>t w1. \<not> isl (fst (monitor_task api t w1))) \<longrightarrow> r = Inr ())
   \<and> monitored_tasks tr = take (length (monitored_tasks tr)) (collected_tasks tr)
   \<and> (\<forall>j<length (monitored_tasks tr).
         tr ! (length obj_refs + j) =
           Monitor (collected_tasks tr ! j)
             (fst (monitor_task api (collected_tasks tr ! j)
                (foldl (\<lambda>w1 t. snd (monitor_task api t w1))
                   (foldl (\<lambda>w1 ref. snd (api_delete api (fst ref) (snd ref) w1)) w (rev obj_refs))
                   (take j (collected_tasks tr))))))
   \<and> w' = foldl (\<lambda>w1 t. snd (monitor_task api t w1))
             (foldl (\<lambda>w1 ref. snd (api_delete api (fst ref) (snd ref) w1)) w (rev obj_refs))
             (monitored_tasks tr)"
proof -
  let ?d = "delete_objs api (rev obj_refs) w"
  let ?m = "monitor_tasks api (fst ?d) (snd (snd ?d))"
  let ?wd = "foldl (\<lambda>w1 ref. snd (api_delete api (fst ref) (snd ref) w1)) w (rev obj_refs)"
  from assms have r: "r = fst ?m" and tr: "tr = fst (snd ?d) @ fst (snd ?m)"
    and w': "w' = snd (snd ?m)"
    by (simp_all add: teardown_unfold)
  have wd: "snd (snd ?d) = ?wd" by (rule delete_objs_state)
  have c: "collected_tasks tr = fst ?d"
    by (simp add: tr collected_tasks_append delete_objs_trace monitor_tasks_trace)
  have mt: "monitored_tasks tr = monitored_tasks (fst (snd ?m))"
    by (simp add: tr monitored_tasks_append delete_objs_trace)
  have o: "\<exists>tr1 tr2. tr = tr1 @ tr2 \<and> list_all is_delete tr1 \<and> list_all is_monitor tr2"
    using tr delete_objs_trace [of api "rev obj_refs" w]
      monitor_tasks_trace [of api "fst ?d" "snd (snd ?d)"] by blast
  have m: "r = Inr () \<longrightarrow> monitored_tasks tr = collected_tasks tr"
  proof
    assume "r = Inr ()"
    with r have "fst ?m = Inr ()" by simp
    from monitor_tasks_returns [OF this] show "monitored_tasks tr = collected_tasks tr"
      by (simp add: mt c)
  qed
  have n: "(\<forall>t w1. \<not> isl (fst (monitor_task api t w1))) \<longrightarrow> r = Inr ()"
    by (simp add: r monitor_tasks_total)
  have p: "monitored_tasks tr = take (length (monitored_tasks tr)) (collected_tasks tr)"
    using monitor_tasks_trace [of api "fst ?d" "snd (snd ?d)"] by (simp add: mt c)
  have q: "\<forall>j<length (monitored_tasks tr).
         tr ! (length obj_refs + j) =
           Monitor (collected_tasks tr ! j)
             (fst (monitor_task api (collected_tasks tr ! j)
                (foldl (\<lambda>w1 t. snd (monitor_task api t w1)) ?wd (take j (collected_tasks tr)))))"
  proof (intro allI impI)
    fix j assume "j < length (monitored_tasks tr)"
    then have j: "j < length (fst (snd ?m))"
      by (simp add: mt monitor_tasks_all_monitors)
    have "tr ! (length obj_refs + j) = fst (snd ?m) ! j"
      by (simp add: tr nth_append delete_objs_length)
    also have "\<dots> = Monitor (fst ?d ! j)
             (fst (monitor_task api (fst ?d ! j)
                (foldl (\<lambda>w1 t. snd (monitor_task api t w1)) (snd (snd ?d)) (take j (fst ?d)))))"
      using monitor_tasks_nth [OF j] by simp
    finally show "tr ! (length obj_refs + j) =
           Monitor (collected_tasks tr ! j)
             (fst (monitor_task api (collected_tasks tr ! j)
                (foldl (\<lambda>w1 t. snd (monitor_task api t w1)) ?wd (take j (collected_tasks tr)))))"
      by (simp only: c wd)
  qed
  have s: "w' = foldl (\<lambda>w1 t. snd (monitor_task api t w1)) ?wd (monitored_tasks tr)"
    using monitor_tasks_state [of api "fst ?d" "snd (snd ?d)"] by (simp only: w' mt wd)
  from c o m n p q s show ?thesis by (simp only:)
qed

text \<open>
  An entry registered twice on a remote system that logs what is done to it: the
  second deletion of \<open>/a/\<close> is answered 404 and yields no task; the two collected tasks are
  awaited after the three deletions, in the order of their deletions.
\<close>

theorem cleanup_monitors_collected_tasks_witness:
  "add_to_cleanup_teardown api_recording [(1, ''/a/''), (2, ''/b/''), (1, ''/a/'')] [] =
     (Inr (),
      [Delete 1 ''/a/'' (Inr ''/tasks/delete/a/''),
       Delete 2 ''/b/'' (Inr ''/tasks/delete/b/''),
       Delete 1 ''/a/'' (Inl ApiException),
       Monitor ''/tasks/delete/a/'' (Inr \<lparr>created_resources = [], task_str = ''/tasks/delete/a/''\<rparr>),
       Monitor ''/tasks/delete/b/'' (Inr \<lparr>created_resources = [], task_str = ''/tasks/delete/b/''\<rparr>)],
      [''DELETE /a/'', ''DELETE /b/'', ''404 /a/'',
       ''WAIT /tasks/delete/a/'', ''WAIT /tasks/delete/b/''])"
  using cleanup_monitors_collected_tasks
    [of api_recording "[(1, ''/a/''), (2, ''/b/''), (1, ''/a/'')]" "[]" "Inr ()"
        "[Delete 1 ''/a/'' (Inr ''/tasks/delete/a/''),
          Delete 2 ''/b/'' (Inr ''/tasks/delete/b/''),
          Delete 1 ''/a/'' (Inl ApiException),
          Monitor ''/tasks/delete/a/'' (Inr \<lparr>created_resources = [], task_str = ''/tasks/delete/a/''\<rparr>),
          Monitor ''/tasks/delete/b/'' (Inr \<lparr>created_resources = [], task_str = ''/tasks/delete/b/''\<rparr>)]"
        "[''DELETE /a/'', ''DELETE /b/'', ''404 /a/'',
          ''WAIT /tasks/delete/a/'', ''WAIT /tasks/delete/b/'']"]
  by (simp add: add_to_cleanup_teardown_def delete_task_def getattr_task_def api_recording_def)

section \<open>Properties of gen_object_with_cleanup\<close>

text \<open>
  The loop over the created resources, when every object that \<open>read\<close> returns has a
  \<open>pulp_href\<close>: either the reads of the first \<open>n\<close> resources raise and the next one
  returns the object that is registered and returned, or all reads raise and the result
  is the \<open>TypeError\<close>.
\<close>

lemma read_created_resources_first_readable:
  assumes "\<forall>h w1 ob w2. api_read api c h w1 = (Inr ob, w2) \<longrightarrow> pulp_href ob \<noteq> None"
    and "read_created_resources api obj_refs c td crs w = (r, refs, tr, w')"
  shows "(\<exists>n ob h. n < length crs \<and> r = Inr ob
            \<and> read_attempts tr = map (\<lambda>x. (c, x, False)) (take n crs) @ [(c, crs ! n, True)]
            \<and> length tr = Suc n \<and> last tr = Read c (crs ! n) (Inr ob)
            \<and> pulp_href ob = Some h \<and> refs = obj_refs @ [(c, h)])
         \<or> (r = Inl (TypeError (no_created_resource_msg td))
            \<and> read_attempts tr = map (\<lambda>x. (c, x, False)) crs
            \<and> length tr = length crs
            \<and> refs = obj_refs)"
  using assms(2)
proof (induction crs arbitrary: w r refs tr w')
  case Nil
  then show ?case by auto
next
  case (Cons cr crs)
  obtain res w1 where rd: "api_read api c cr w = (res, w1)" by (cases "api_read api c cr w")
  show ?case
  proof (cases res)
    case (Inl e)
    obtain r0 refs0 tr0 w0 where
      rest: "read_created_resources api obj_refs c td crs w1 = (r0, refs0, tr0, w0)"
      by (cases "read_created_resources api obj_refs c td crs w1") auto
    from Cons.prems rd Inl rest
    have eq: "r = r0" "refs = refs0" "tr = Read c cr (Inl e) # tr0" "w' = w0"
      by simp_all
    from Cons.IH [OF rest] show ?thesis
    proof
      assume "\<exists>n ob h. n < length crs \<and> r0 = Inr ob
            \<and> read_attempts tr0 = map (\<lambda>x. (c, x, False)) (take n crs) @ [(c, crs ! n, True)]
            \<and> length tr0 = Suc n \<and> last tr0 = Read c (crs ! n) (Inr ob)
            \<and> pulp_href ob = Some h \<and> refs0 = obj_refs @ [(c, h)]"
      then obtain n ob h where n: "n < length crs" "r0 = Inr ob"
        and a0: "read_attempts tr0 = map (\<lambda>x. (c, x, False)) (take n crs) @ [(c, crs ! n, True)]"
        and l0: "length tr0 = Suc n" "last tr0 = Read c (crs ! n) (Inr ob)"
        and h: "pulp_href ob = Some h" "refs0 = obj_refs @ [(c, h)]"
        by blast
      from l0 have ne: "tr0 \<noteq> []" by auto
      have "read_attempts tr = map (\<lambda>x. (c, x, False)) (take (Suc n) (cr # crs)) @ [(c, (cr # crs) ! Suc n, True)]"
        using a0 by (simp add: eq)
      moreover have "length tr = Suc (Suc n)" "last tr = Read c ((cr # crs) ! Suc n) (Inr ob)"
        using l0 ne by (simp_all add: eq)
      ultimately show ?thesis
        using n h eq by (intro disjI1 exI [of _ "Suc n"] exI [of _ ob] exI [of _ h]) simp
    next
      assume "r0 = Inl (TypeError (no_created_resource_msg td))
            \<and> read_attempts tr0 = map (\<lambda>x. (c, x, False)) crs
            \<and> length tr0 = length crs
            \<and> refs0 = obj_refs"
      then show ?thesis by (simp add: eq)
    qed
  next
    case (Inr ob)
    from assms(1) rd Inr have "pulp_href ob \<noteq> None" by blast
    then obtain h where h: "pulp_href ob = Some h" by blast
    from Cons.prems rd Inr h
    have eq: "r = Inr ob" "refs = obj_refs @ [(c, h)]" "tr = [Read c cr (Inr ob)]"
      by (auto simp: getattr_pulp_href_def add_to_cleanup_def)
    show ?thesis
      using h eq by (intro disjI1 exI [of _ 0] exI [of _ ob] exI [of _ h]) simp
  qed
qed

text \<open>
  C4. When the creation call returns a task (an object with no \<open>pulp_href\<close> and a
  \<open>task\<close>) and \<open>monitor_task\<close> returns its data, \<open>gen_object_with_cleanup\<close> awaits the
  task right after the creation and then reads the created resources in order through
  the same client: either the reads of the first \<open>n\<close> raise and the read of the next one
  returns the object, which is registered for cleanup under that client and returned, and
  no further resource is read; or every read raises, nothing is registered, and the
  result is the \<open>TypeError\<close> whose message names the task data.
\<close>

theorem gen_object_with_cleanup_task:
  assumes "api_create api c args w = (Inr new_obj, w1)"
    and "pulp_href new_obj = None"
    and "task new_obj = Some t"
    and "monitor_task api t w1 = (Inr td, w2)"
    and "\<forall>h w1 ob w2. api_read api c h w1 = (Inr ob, w2) \<longrightarrow> pulp_href ob \<noteq> None"
    and "gen_object_with_cleanup api obj_refs c args w = (r, refs, tr, w')"
  shows "\<exists>reads. tr = Create c args (Inr new_obj) # Monitor t (Inr td) # reads
           \<and> ((\<exists>n ob h. n < length (created_resources td) \<and> r = Inr ob
                  \<and> read_attempts reads
                      = map (\<lambda>x. (c, x, False)) (take n (created_resources td))
                        @ [(c, created_resources td ! n, True)]
                  \<and> length reads = Suc n
                  \<and> last reads = Read c (created_resources td ! n) (Inr ob)
                  \<and> pulp_href ob = Some h \<and> refs = obj_refs @ [(c, h)])
               \<or> (r = Inl (TypeError (''No appropriate created_resource could be found in task data ''
                                      @ task_str td))
                  \<and> read_attempts reads = map (\<lambda>x. (c, x, False)) (created_resources td)
                  \<and> length reads = length (created_resources td)
                  \<and> refs = obj_refs))"
proof -
  obtain r0 refs0 tr0 w0 where
    rest: "read_created_resources api obj_refs c td (created_resources td) w2 = (r0, refs0, tr0, w0)"
    by (cases "read_created_resources api obj_refs c td (created_resources td) w2") auto
  from assms(1-4,6) rest
  have eq: "r = r0" "refs = refs0" "tr = Create c args (Inr new_obj) # Monitor t (Inr td) # tr0"
    by (simp_all add: gen_object_with_cleanup_def getattr_pulp_href_def getattr_task_def)
  from read_created_resources_first_readable [OF assms(5) rest]
  show ?thesis
    unfolding eq no_created_resource_msg_def by blast
qed

theorem gen_object_with_cleanup_task_witness:
  "gen_object_with_cleanup api_ok [(7, ''/remotes/3/'')] 1 () 0 =
     (Inr \<lparr>pulp_href = Some ''/repositories/1/'', task = None\<rparr>,
      [(7, ''/remotes/3/''), (1, ''/repositories/1/'')],
      [Create 1 () (Inr \<lparr>pulp_href = None, task = Some ''/tasks/create/''\<rparr>),
       Monitor ''/tasks/create/''
         (Inr \<lparr>created_resources = [''/publications/7/'', ''/repositories/1/''],
               task_str = ''/tasks/create/''\<rparr>),
       Read 1 ''/publications/7/'' (Inl ApiException),
       Read 1 ''/repositories/1/'' (Inr \<lparr>pulp_href = Some ''/repositories/1/'', task = None\<rparr>)],
      4)
   \<and> fst (gen_object_with_cleanup api_unreadable [] 1 () 0) =
       Inl (TypeError ''No appropriate created_resource could be found in task data /tasks/create/'')"
  using gen_object_with_cleanup_task
    [of api_ok 1 "()" 0 "\<lparr>pulp_href = None, task = Some ''/tasks/create/''\<rparr>" 1
        "''/tasks/create/''"
        "\<lparr>created_resources = [''/publications/7/'', ''/repositories/1/''],
          task_str = ''/tasks/create/''\<rparr>" 2
        "[(7, ''/remotes/3/'')]"
        "Inr \<lparr>pulp_href = Some ''/repositories/1/'', task = None\<rparr>"
        "[(7, ''/remotes/3/''), (1, ''/repositories/1/'')]"
        "[Create 1 () (Inr \<lparr>pulp_href = None, task = Some ''/tasks/create/''\<rparr>),
          Monitor ''/tasks/create/''
            (Inr \<lparr>created_resources = [''/publications/7/'', ''/repositories/1/''],
                  task_str = ''/tasks/create/''\<rparr>),
          Read 1 ''/publications/7/'' (Inl ApiException),
          Read 1 ''/repositories/1/'' (Inr \<lparr>pulp_href = Some ''/repositories/1/'', task = None\<rparr>)]"
        4]
  by (simp add: gen_object_with_cleanup_def getattr_pulp_href_def getattr_task_def
      add_to_cleanup_def no_created_resource_msg_def api_ok_def api_unreadable_def)

section \<open>Properties of the service helpers\<close>

subsection \<open>start_and_check_services\<close>









subsection \<open>stop_and_check_services\<close>

lemma stop_poll_Cons:
  "stop_poll env (i # rest) w =
     (case status_read env (sleep env 3 w) of
        (Inl e, w2) \<Rightarrow>
          if caught_by_poller e then (Inr True, w2, [Sleep 3, StatusRead (Inl e)])
          else (Inl e, w2, [Sleep 3, StatusRead (Inl e)])
      | (Inr s, w2) \<Rightarrow>
          (fst (stop_poll env rest w2), fst (snd (stop_poll env rest w2)),
           Sleep 3 # StatusRead (Inr s) # snd (snd (stop_poll env rest w2))))"
  by (simp add: Let_def case_prod_beta split: sum.splits prod.splits)

text \<open>
  The polling loop of \<open>_stop_and_check_services\<close> over \<open>n\<close> rounds: every read follows a
  sleep of 3 seconds, at most \<open>n\<close> reads are made and all but the last return; \<open>True\<close>
  comes with a last read that raised a caught exception, \<open>False\<close> with \<open>n\<close> reads that
  all returned, an exception is the one of the last read, which the handler does not
  catch.
\<close>

lemma stop_poll_spec:
  "spaced (snd (snd (stop_poll env is w)))
   \<and> attempts (snd (snd (stop_poll env is w))) \<le> length is
   \<and> list_all read_ok (filter is_read (butlast (snd (snd (stop_poll env is w)))))
   \<and> (fst (stop_poll env is w) = Inr True \<longrightarrow>
        snd (snd (stop_poll env is w)) \<noteq> []
        \<and> failed_read (last (snd (snd (stop_poll env is w)))))
   \<and> (fst (stop_poll env is w) = Inr False \<longrightarrow>
        attempts (snd (snd (stop_poll env is w))) = length is
        \<and> list_all read_ok (filter is_read (snd (snd (stop_poll env is w)))))
   \<and> (\<forall>e. fst (stop_poll env is w) = Inl e \<longrightarrow>
        \<not> caught_by_poller e
        \<and> snd (snd (stop_poll env is w)) \<noteq> []
        \<and> last (snd (snd (stop_poll env is w))) = StatusRead (Inl e))"
proof (induction "is" arbitrary: w)
  case Nil
  show ?case by (simp add: attempts_def)
next
  case (Cons i rest)
  obtain res w2 where rd: "status_read env (sleep env 3 w) = (res, w2)"
    by (cases "status_read env (sleep env 3 w)")
  note IH = Cons.IH [of w2]
  show ?case
  proof (cases res)
    case (Inl e)
    with rd show ?thesis
      by (cases "caught_by_poller e")
         (simp_all add: stop_poll_Cons attempts_def del: stop_poll.simps(2))
  next
    case (Inr s)
    show ?thesis
    proof (cases "snd (snd (stop_poll env rest w2)) = []")
      case True
      with IH rd Inr show ?thesis
        by (simp add: stop_poll_Cons attempts_def del: stop_poll.simps(2))
    next
      case False
      with IH rd Inr show ?thesis
        by (simp add: stop_poll_Cons attempts_def del: stop_poll.simps(2))
    qed
  qed
qed

lemma stop_poll_first_failure:
  "list_ex failed_read (snd (snd (stop_poll env is w))) \<Longrightarrow> fst (stop_poll env is w) = Inr True"
proof (induction "is" arbitrary: w)
  case Nil
  then show ?case by simp
next
  case (Cons i rest)
  obtain res w2 where rd: "status_read env (sleep env 3 w) = (res, w2)"
    by (cases "status_read env (sleep env 3 w)")
  show ?case
  proof (cases res)
    case (Inl e)
    with rd Cons.prems show ?thesis
      by (cases "caught_by_poller e")
         (simp_all add: stop_poll_Cons del: stop_poll.simps(2))
  next
    case (Inr s)
    with rd Cons.prems Cons.IH [of w2] show ?thesis
      by (simp add: stop_poll_Cons del: stop_poll.simps(2))
  qed
qed

lemma stop_poll_no_raise:
  assumes "\<forall>w0 e. fst (status_read env w0) = Inl e \<longrightarrow> caught_by_poller e"
  shows "\<exists>b. fst (stop_poll env is w) = Inr b"
proof (induction "is" arbitrary: w)
  case Nil
  show ?case by auto
next
  case (Cons i rest)
  obtain res w2 where rd: "status_read env (sleep env 3 w) = (res, w2)"
    by (cases "status_read env (sleep env 3 w)")
  have c: "caught_by_poller x" if "res = Inl x" for x
    using assms rd that by (metis fst_conv)
  show ?case
  proof (cases res)
    case (Inl e)
    with rd c [of e] show ?thesis
      by (auto simp: stop_poll_Cons simp del: stop_poll.simps(2))
  next
    case (Inr s)
    with rd Cons.IH [of w2] show ?thesis
      by (simp add: stop_poll_Cons del: stop_poll.simps(2))
  qed
qed

lemma stop_unfold:
  "stop_and_check_services env ps w =
     (case fst (svc_stop env (services_or_default ps) w) of
        Inl e \<Rightarrow> (Inl e, snd (svc_stop env (services_or_default ps) w),
                  [SvcStop (services_or_default ps)])
      | Inr u \<Rightarrow>
          (fst (stop_poll env [0..<10] (snd (svc_stop env (services_or_default ps) w))),
           fst (snd (stop_poll env [0..<10] (snd (svc_stop env (services_or_default ps) w)))),
           SvcStop (services_or_default ps)
             # snd (snd (stop_poll env [0..<10] (snd (svc_stop env (services_or_default ps) w))))))"
  by (simp add: stop_and_check_services_def Let_def case_prod_beta split: sum.splits prod.splits)

lemma attempts_Cons_SvcStop: "attempts (SvcStop svcs # tr) = attempts tr"
  by (simp add: attempts_def)

text \<open>
  C6, as the code has it. \<open>stop_and_check_services\<close> returns \<open>True\<close> as soon as a
  status read raises a \<open>MaxRetryError\<close> or an \<open>ApiException\<close>: a trace that holds such a
  read ends with it, after at most 10 reads spaced by sleeps of 3 seconds, all earlier
  ones having returned, and the result is \<open>True\<close>. It returns \<open>False\<close> only after exactly
  10 such reads that all returned, and does so whenever \<open>svc_mgr.stop\<close> returns and
  every status read returns. When \<open>svc_mgr.stop\<close> returns and every exception of a
  status read is of one of those two classes, it returns a boolean and raises nothing;
  an exception of another class is not caught.
\<close>

theorem stop_and_check_services_polls:
  assumes "stop_and_check_services env ps w = (r, w', tr)"
  shows "(list_ex failed_read tr \<longrightarrow> r = Inr True)
         \<and> (r = Inr True \<longrightarrow>
            hd tr = SvcStop (services_or_default ps) \<and> spaced (tl tr) \<and> attempts tr \<le> 10
            \<and> failed_read (last tr) \<and> list_all read_ok (filter is_read (butlast tr)))
         \<and> (r = Inr False \<longrightarrow>
            hd tr = SvcStop (services_or_default ps) \<and> spaced (tl tr) \<and> attempts tr = 10
            \<and> list_all read_ok (filter is_read tr))
         \<and> (fst (svc_stop env (services_or_default ps) w) = Inr ()
            \<and> (\<forall>w0 e. fst (status_read env w0) = Inl e \<longrightarrow> caught_by_poller e)
            \<longrightarrow> (\<exists>b. r = Inr b))
         \<and> (fst (svc_stop env (services_or_default ps) w) = Inr ()
            \<and> list_all read_ok (filter is_read tr)
            \<longrightarrow> r = Inr False \<and> attempts tr = 10)"
proof (cases "fst (svc_stop env (services_or_default ps) w)")
  case (Inl e)
  with assms show ?thesis by (auto simp: stop_unfold)
next
  case (Inr u)
  let ?w1 = "snd (svc_stop env (services_or_default ps) w)"
  let ?p = "stop_poll env [0..<10] ?w1"
  from assms Inr have r: "r = fst ?p" and tr: "tr = SvcStop (services_or_default ps) # snd (snd ?p)"
    by (simp_all add: stop_unfold)
  note sp = stop_poll_spec [of env "[0..<10]" ?w1]
  have a: "attempts tr = attempts (snd (snd ?p))" by (simp add: tr attempts_Cons_SvcStop)
  have x: "list_ex failed_read tr \<longrightarrow> r = Inr True"
    using stop_poll_first_failure [of env "[0..<10]" ?w1] r by (simp add: tr)
  have t: "r = Inr True \<longrightarrow>
            hd tr = SvcStop (services_or_default ps) \<and> spaced (tl tr) \<and> attempts tr \<le> 10
            \<and> failed_read (last tr) \<and> list_all read_ok (filter is_read (butlast tr))"
  proof
    assume "r = Inr True"
    with sp r have ne: "snd (snd ?p) \<noteq> []" and rr: "failed_read (last (snd (snd ?p)))"
      and nb: "list_all read_ok (filter is_read (butlast (snd (snd ?p))))"
      and s: "spaced (snd (snd ?p))" and le: "attempts (snd (snd ?p)) \<le> 10"
      by simp_all
    from ne have "last tr = last (snd (snd ?p))"
      and "butlast tr = SvcStop (services_or_default ps) # butlast (snd (snd ?p))"
      by (simp_all add: tr)
    with rr nb s le a show "hd tr = SvcStop (services_or_default ps) \<and> spaced (tl tr)
        \<and> attempts tr \<le> 10 \<and> failed_read (last tr)
        \<and> list_all read_ok (filter is_read (butlast tr))"
      by (simp add: tr)
  qed
  have f: "r = Inr False \<longrightarrow>
            hd tr = SvcStop (services_or_default ps) \<and> spaced (tl tr) \<and> attempts tr = 10
            \<and> list_all read_ok (filter is_read tr)"
    using sp r a by (simp add: tr)
  have n: "fst (svc_stop env (services_or_default ps) w) = Inr ()
            \<and> (\<forall>w0 e. fst (status_read env w0) = Inl e \<longrightarrow> caught_by_poller e)
            \<longrightarrow> (\<exists>b. r = Inr b)"
    using stop_poll_no_raise [of env "[0..<10]" ?w1] r by simp
  have z: "list_all read_ok (filter is_read tr) \<longrightarrow> r = Inr False"
  proof
    assume ok: "list_all read_ok (filter is_read tr)"
    have bad: False if "snd (snd ?p) \<noteq> []" and "last (snd (snd ?p)) = StatusRead (Inl e)" for e
    proof -
      from that have "StatusRead (Inl e) \<in> set tr" by (metis last_in_set list.set_intros(2) tr)
      with ok show False by (auto simp: list_all_iff)
    qed
    show "r = Inr False"
    proof (cases r)
      case (Inl e)
      with r have "fst ?p = Inl e" by simp
      with sp have "snd (snd ?p) \<noteq> []" and "last (snd (snd ?p)) = StatusRead (Inl e)"
        by blast+
      from bad [OF this] show ?thesis ..
    next
      case (Inr b)
      show ?thesis
      proof (cases b)
        case True
        with Inr sp r have ne: "snd (snd ?p) \<noteq> []" and fr: "failed_read (last (snd (snd ?p)))"
          by simp_all
        from fr obtain e where "last (snd (snd ?p)) = StatusRead (Inl e)"
          by (cases "last (snd (snd ?p))" rule: failed_read.cases) auto
        with bad [OF ne] show ?thesis by blast
      next
        case False
        with Inr show ?thesis by simp
      qed
    qed
  qed
  from x t f n z show ?thesis by (metis (full_types))
qed

text \<open>
  Services that still answer twice and then refuse connections: \<open>True\<close> at the third
  read. Services that never go down: \<open>False\<close> after 10 reads.
\<close>

theorem stop_and_check_services_polls_witness:
  "stop_and_check_services svc_starting (Some [''pulpcore-api'']) 0 =
     (Inr True, 9,
      [SvcStop [''pulpcore-api''],
       Sleep 3, StatusRead (Inr status_up),
       Sleep 3, StatusRead (Inr status_up),
       Sleep 3, StatusRead (Inl MaxRetryError)])
   \<and> fst (stop_and_check_services svc_stays_up None 0) = Inr False
   \<and> attempts (snd (snd (stop_and_check_services svc_stays_up None 0))) = 10"
  using stop_and_check_services_polls [of svc_starting "Some [''pulpcore-api'']" 0 "Inr True" 9
      "[SvcStop [''pulpcore-api''],
        Sleep 3, StatusRead (Inr status_up),
        Sleep 3, StatusRead (Inr status_up),
        Sleep 3, StatusRead (Inl MaxRetryError)]"]
  by (simp add: stop_and_check_services_def services_or_default_def svc_starting_def
      svc_stays_up_def caught_by_poller_def attempts_def upt_rec)

text \<open>
  C6 without that proviso fails: a status read that raises an exception which is
  neither a \<open>MaxRetryError\<close> nor an \<open>ApiException\<close> makes the function raise it.
\<close>

theorem stop_and_check_services_raises_counterexample:
  "fst (stop_and_check_services svc_bad_response (Some [''pulpcore-api'']) 0)
     = Inl (ValueError ''Invalid value for `versions`, must not be `None`'')"
  by (simp add: stop_and_check_services_def services_or_default_def svc_bad_response_def
      svc_starting_def caught_by_poller_def upt_rec)

end
